theory Spec2Isabelle
  imports Main "HOL-Library.AList"
begin

section \<open>Values that travel over the realtime channel\<close>

text \<open>
  The handlers of both services read fields of a client-supplied object \<open>data\<close> and pass
  some of them on untouched. A field holds any JSON value; a missing field reads as
  \<open>undefined\<close>. Numbers are modelled as integers (identifiers and clock readings are).
  The payload of an event is taken to be an object, as the specification assumes of
  every payload; the principal ids are the numeric ids that \<open>/api/login\<close> signs into the
  token.
\<close>

datatype jsval =
    JUndefined
  | JNull
  | JBool bool
  | JNum int
  | JStr string
  | JObj "(string \<times> jsval) list"

type_synonym js_data = "string \<Rightarrow> jsval"

text \<open>JavaScript truthiness, as used by \<open>if (data.callId)\<close> and \<open>data.reason || 'NORMAL'\<close>.\<close>

fun js_truthy :: "jsval \<Rightarrow> bool" where
  "js_truthy JUndefined = False"
| "js_truthy JNull = False"
| "js_truthy (JBool b) = b"
| "js_truthy (JNum n) = (n \<noteq> 0)"
| "js_truthy (JStr s) = (s \<noteq> [])"
| "js_truthy (JObj fs) = True"

definition js_or :: "jsval \<Rightarrow> jsval \<Rightarrow> jsval" where
  "js_or a b = (if js_truthy a then a else b)"

text \<open>Decimal rendering of numbers inside a template string.\<close>

fun show_nat :: "nat \<Rightarrow> string" where
  "show_nat n =
     (if n < 10 then [''0123456789'' ! n]
      else show_nat (n div 10) @ [''0123456789'' ! (n mod 10)])"

declare show_nat.simps [simp del]

definition show_int :: "int \<Rightarrow> string" where
  "show_int i = (if i < 0 then CHR ''-'' # show_nat (nat (- i)) else show_nat (nat i))"

fun js_toString :: "jsval \<Rightarrow> string" where
  "js_toString JUndefined = ''undefined''"
| "js_toString JNull = ''null''"
| "js_toString (JBool b) = (if b then ''true'' else ''false'')"
| "js_toString (JNum n) = show_int n"
| "js_toString (JStr s) = s"
| "js_toString (JObj fs) = ''[object Object]''"

text \<open>
  The conversion of an object looks up its \<open>toString\<close>. An object that arrived as JSON
  and has a key \<open>toString\<close> of its own holds a value there that cannot be called, and so
  does not reach \<open>Object.prototype.toString\<close>; its \<open>valueOf\<close> gives no primitive
  either, and the conversion throws a \<open>TypeError\<close>. Every other value converts, to the
  string \<open>js_toString\<close> gives.
\<close>

datatype error = TypeError

fun js_throws :: "jsval \<Rightarrow> bool" where
  "js_throws (JObj fs) = (''toString'' \<in> set (map fst fs))"
| "js_throws v = False"

text \<open>
  A \<open>console.log\<close> of a template literal that embeds the values \<open>vs\<close>, followed by the
  rest \<open>k\<close> of the handler: the log line is built first, and a throw there leaves the
  rest undone.
\<close>

definition rendering :: "jsval list \<Rightarrow> error + 'a \<Rightarrow> error + 'a" where
  "rendering vs k = (if list_ex js_throws vs then Inl TypeError else k)"

section \<open>Messages service: the registry \<open>UserConnections\<close>\<close>

type_synonym sock = nat

text \<open>The events a socket can be handed by \<open>emit\<close>, one constructor per event name.\<close>

datatype out_event =
    NewMessage jsval
  | CallIncoming string jsval jsval jsval
  | CallFailed string string
  | CallAnswered jsval jsval
  | CallCandidate jsval jsval
  | CallEnded jsval jsval
  | IncomingCall jsval jsval
  | UsersCallAnswered jsval jsval
  | IceCandidate jsval jsval

text \<open>
  Field order of the constructors:
  \<open>CallIncoming callId signal from callType\<close>, \<open>CallFailed error message\<close>,
  \<open>CallAnswered signal from\<close>, \<open>CallCandidate candidate from\<close>, \<open>CallEnded from reason\<close>;
  for the users service \<open>IncomingCall from offer\<close>, \<open>UsersCallAnswered from answer\<close>,
  \<open>IceCandidate from candidate\<close>.
\<close>

fun from_field :: "out_event \<Rightarrow> jsval option" where
  "from_field (NewMessage m) = None"
| "from_field (CallIncoming c sg f t) = Some f"
| "from_field (CallFailed e m) = None"
| "from_field (CallAnswered sg f) = Some f"
| "from_field (CallCandidate c f) = Some f"
| "from_field (CallEnded f r) = Some f"
| "from_field (IncomingCall f off) = Some f"
| "from_field (UsersCallAnswered f a) = Some f"
| "from_field (IceCandidate f c) = Some f"

record call_data =
  otherParticipantId :: jsval
  call_type :: jsval
  startTime :: int

text \<open>
  A JavaScript \<open>Map\<close> keeps its entries in insertion order with one entry per key:
  \<open>set\<close> on a present key replaces the value in place, on a new key appends
  (\<open>AList.update\<close>); \<open>delete\<close> drops the entry (\<open>AList.delete\<close>); \<open>get\<close> is
  \<open>map_of\<close>. The keys of \<open>calls\<close> are the strings minted by \<open>callUser\<close>; the keys of
  \<open>connections\<close> are the numeric ids the token carries.
\<close>

record user_connection =
  socket :: sock
  timestamp :: int
  calls :: "(string \<times> call_data) list"

record server =
  connections :: "(int \<times> user_connection) list"
  io_sockets :: "(sock \<times> int) list"
  wire :: "(sock \<times> out_event) list"

text \<open>
  \<open>connections\<close> is the map of \<open>connectedUsers\<close>. \<open>io_sockets\<close> is the set of sockets the
  socket.io namespace holds connected, each with its \<open>socket.user.id\<close>. \<open>wire\<close> logs
  every call of \<open>emit\<close>, oldest first, as the pair of the receiving socket and the event.
\<close>

definition init_server :: server where
  "init_server = \<lparr>connections = [], io_sockets = [], wire = []\<rparr>"

definition emit :: "sock \<Rightarrow> out_event \<Rightarrow> server \<Rightarrow> server" where
  "emit sk ev s = s\<lparr>wire := wire s @ [(sk, ev)]\<rparr>"

text \<open>\<open>socket.broadcast.emit\<close>: every connected socket of the namespace but the sender.\<close>

definition broadcast_emit :: "sock \<Rightarrow> out_event \<Rightarrow> server \<Rightarrow> server" where
  "broadcast_emit sk ev s =
     s\<lparr>wire := wire s @ map (\<lambda>(k, u). (k, ev)) (filter (\<lambda>(k, u). k \<noteq> sk) (io_sockets s))\<rparr>"

text \<open>Lookups with a key that came from the client: only a number can hit a numeric key,
  only a string a string key.\<close>

definition get :: "server \<Rightarrow> jsval \<Rightarrow> user_connection option" where
  "get s userId = (case userId of JNum n \<Rightarrow> map_of (connections s) n | _ \<Rightarrow> None)"

definition calls_get :: "(string \<times> call_data) list \<Rightarrow> jsval \<Rightarrow> call_data option" where
  "calls_get cs callId = (case callId of JStr k \<Rightarrow> map_of cs k | _ \<Rightarrow> None)"

definition calls_delete :: "jsval \<Rightarrow> (string \<times> call_data) list \<Rightarrow> (string \<times> call_data) list" where
  "calls_delete callId cs = (case callId of JStr k \<Rightarrow> AList.delete k cs | _ \<Rightarrow> cs)"

definition add :: "int \<Rightarrow> sock \<Rightarrow> int \<Rightarrow> server \<Rightarrow> server" where
  "add userId sk now s =
     s\<lparr>connections :=
         AList.update userId \<lparr>socket = sk, timestamp = now, calls = []\<rparr> (connections s)\<rparr>"

definition addCall :: "int \<Rightarrow> string \<Rightarrow> call_data \<Rightarrow> server \<Rightarrow> server" where
  "addCall userId callId d s =
     (case map_of (connections s) userId of
        None \<Rightarrow> s
      | Some connection \<Rightarrow>
          s\<lparr>connections :=
              AList.update userId
                (connection\<lparr>calls := AList.update callId d (calls connection)\<rparr>)
                (connections s)\<rparr>)"

definition endCall :: "int \<Rightarrow> jsval \<Rightarrow> server \<Rightarrow> server" where
  "endCall userId callId s =
     (case map_of (connections s) userId of
        None \<Rightarrow> s
      | Some connection \<Rightarrow>
          (case calls_get (calls connection) callId of
             None \<Rightarrow> s
           | Some callData \<Rightarrow>
               (let s1 = (case get s (otherParticipantId callData) of
                            None \<Rightarrow> s
                          | Some otherParticipant \<Rightarrow>
                              emit (socket otherParticipant)
                                (CallEnded (JNum userId) (JStr ''REMOTE_ENDED'')) s)
                in s1\<lparr>connections :=
                        AList.update userId
                          (connection\<lparr>calls := calls_delete callId (calls connection)\<rparr>)
                          (connections s1)\<rparr>)))"

text \<open>
  \<open>remove\<close> walks \<open>connection.calls\<close> with \<open>forEach\<close>. The callback deletes only the
  entry being visited, so the walk visits the entries present at its start, in order.
\<close>

definition remove :: "int \<Rightarrow> server \<Rightarrow> server" where
  "remove userId s =
     (case map_of (connections s) userId of
        None \<Rightarrow> s
      | Some connection \<Rightarrow>
          (let s1 = fold (\<lambda>(callId, call). endCall userId (JStr callId)) (calls connection) s
           in s1\<lparr>connections := AList.delete userId (connections s1)\<rparr>))"

section \<open>Messages service: the socket handlers\<close>

text \<open>
  Each handler is a closure over \<open>socket\<close>; \<open>sk\<close> is that socket and \<open>uid\<close> its
  \<open>socket.user.id\<close>. \<open>callUser\<close> reads the clock twice.
\<close>

definition msg_not_connected :: string where
  "msg_not_connected =
     ''L'' @ [CHR 0x27] @ ''utilisateur n'' @ [CHR 0x27] @ ''est pas connect'' @ [CHR 0xE9]"

definition on_connection :: "sock \<Rightarrow> int \<Rightarrow> int \<Rightarrow> server \<Rightarrow> server" where
  "on_connection sk uid now s = add uid sk now (s\<lparr>io_sockets := AList.update sk uid (io_sockets s)\<rparr>)"

definition on_sendMessage :: "sock \<Rightarrow> jsval \<Rightarrow> server \<Rightarrow> server" where
  "on_sendMessage sk message s = broadcast_emit sk (NewMessage message) s"

definition mint_callId :: "int \<Rightarrow> jsval \<Rightarrow> int \<Rightarrow> string" where
  "mint_callId uid userToCall now =
     show_int uid @ ''-'' @ js_toString userToCall @ ''-'' @ show_int now"

text \<open>
  \<open>callUser\<close> logs two template literals: on a hit, after the call is stored and before
  \<open>callIncoming\<close> is emitted, one that embeds \<open>data.userToCall\<close> and \<open>data.from\<close>; on a
  miss, before \<open>callFailed\<close> is emitted, one that embeds \<open>data.userToCall\<close>. The call id
  is built on a hit only, where \<open>data.userToCall\<close> is a number.
\<close>

definition on_callUser ::
  "sock \<Rightarrow> int \<Rightarrow> js_data \<Rightarrow> int \<Rightarrow> int \<Rightarrow> server \<Rightarrow> error + server" where
  "on_callUser sk uid data now1 now2 s =
     (case get s (data ''userToCall'') of
        Some targetConnection \<Rightarrow>
          (let callId = mint_callId uid (data ''userToCall'') now1;
               s1 = addCall uid callId
                      \<lparr>otherParticipantId = data ''userToCall'',
                       call_type = data ''callType'',
                       startTime = now2\<rparr> s
           in rendering [data ''userToCall'', data ''from'']
                (Inr (emit (socket targetConnection)
                        (CallIncoming callId (data ''signalData'') (data ''from'')
                           (data ''callType'')) s1)))
      | None \<Rightarrow>
          rendering [data ''userToCall'']
            (Inr (emit sk (CallFailed ''USER_UNAVAILABLE'' msg_not_connected) s)))"

definition on_answerCall :: "sock \<Rightarrow> int \<Rightarrow> js_data \<Rightarrow> server \<Rightarrow> server" where
  "on_answerCall sk uid data s =
     (case get s (data ''to'') of
        Some targetConnection \<Rightarrow>
          emit (socket targetConnection) (CallAnswered (data ''signal'') (JNum uid)) s
      | None \<Rightarrow> s)"

definition on_callCandidate :: "sock \<Rightarrow> int \<Rightarrow> js_data \<Rightarrow> server \<Rightarrow> server" where
  "on_callCandidate sk uid data s =
     (case get s (data ''to'') of
        Some targetConnection \<Rightarrow>
          emit (socket targetConnection) (CallCandidate (data ''candidate'') (JNum uid)) s
      | None \<Rightarrow> s)"

definition on_endCall :: "sock \<Rightarrow> int \<Rightarrow> js_data \<Rightarrow> server \<Rightarrow> server" where
  "on_endCall sk uid data s =
     (if js_truthy (data ''callId'') then endCall uid (data ''callId'') s
      else (case get s (data ''to'') of
              Some targetConnection \<Rightarrow>
                emit (socket targetConnection)
                  (CallEnded (JNum uid) (js_or (data ''reason'') (JStr ''NORMAL''))) s
            | None \<Rightarrow> s))"

definition on_disconnect :: "sock \<Rightarrow> int \<Rightarrow> server \<Rightarrow> server" where
  "on_disconnect sk uid s = remove uid (s\<lparr>io_sockets := AList.delete sk (io_sockets s)\<rparr>)"

definition on_error :: "sock \<Rightarrow> int \<Rightarrow> server \<Rightarrow> server" where
  "on_error sk uid s = remove uid s"

text \<open>
  A \<open>TypeError\<close> thrown in a handler is caught by nobody: the \<open>uncaughtException\<close> hook
  ends the process with \<open>process.exit(1)\<close>, and the compose file restarts the service
  (\<open>restart: unless-stopped\<close>). The server then goes on with an empty registry and no
  connected socket; what was emitted before stays emitted.
\<close>

definition restart :: "server \<Rightarrow> server" where
  "restart s = s\<lparr>connections := [], io_sockets := []\<rparr>"

text \<open>
  What reaches the server: a connection whose token was verified (socket.io hands every
  connection a socket of its own), or an event on a connected socket.
\<close>

datatype event =
    Connection sock int int
  | SendMessage sock jsval
  | CallUser sock js_data int int
  | AnswerCall sock js_data
  | CallCandidateEv sock js_data
  | EndCall sock js_data
  | Disconnect sock
  | ErrorEv sock

definition on_socket :: "sock \<Rightarrow> (int \<Rightarrow> server \<Rightarrow> server) \<Rightarrow> server \<Rightarrow> server" where
  "on_socket sk h s = (case map_of (io_sockets s) sk of None \<Rightarrow> s | Some uid \<Rightarrow> h uid s)"

fun step :: "event \<Rightarrow> server \<Rightarrow> server" where
  "step (Connection sk uid now) s =
     (if map_of (io_sockets s) sk = None then on_connection sk uid now s else s)"
| "step (SendMessage sk m) s = on_socket sk (\<lambda>uid. on_sendMessage sk m) s"
| "step (CallUser sk d now1 now2) s =
     on_socket sk
       (\<lambda>uid s. case on_callUser sk uid d now1 now2 s of Inl e \<Rightarrow> restart s | Inr s' \<Rightarrow> s') s"
| "step (AnswerCall sk d) s = on_socket sk (\<lambda>uid. on_answerCall sk uid d) s"
| "step (CallCandidateEv sk d) s = on_socket sk (\<lambda>uid. on_callCandidate sk uid d) s"
| "step (EndCall sk d) s = on_socket sk (\<lambda>uid. on_endCall sk uid d) s"
| "step (Disconnect sk) s = on_socket sk (\<lambda>uid. on_disconnect sk uid) s"
| "step (ErrorEv sk) s = on_socket sk (\<lambda>uid. on_error sk uid) s"

definition run :: "event list \<Rightarrow> server \<Rightarrow> server" where
  "run evs s = fold step evs s"

section \<open>Users service: \<open>onlineUsers\<close> and its handlers\<close>

record users_server =
  onlineUsers :: "(int \<times> sock) list"
  users_wire :: "(sock \<times> out_event) list"

definition users_get :: "users_server \<Rightarrow> jsval \<Rightarrow> sock option" where
  "users_get s userId = (case userId of JNum n \<Rightarrow> map_of (onlineUsers s) n | _ \<Rightarrow> None)"

definition users_emit :: "sock \<Rightarrow> out_event \<Rightarrow> users_server \<Rightarrow> users_server" where
  "users_emit sk ev s = s\<lparr>users_wire := users_wire s @ [(sk, ev)]\<rparr>"

definition users_on_connection :: "sock \<Rightarrow> int \<Rightarrow> users_server \<Rightarrow> users_server" where
  "users_on_connection sk uid s = s\<lparr>onlineUsers := AList.update uid sk (onlineUsers s)\<rparr>"

text \<open>
  Each of the three relays starts with a \<open>console.log\<close> of a template literal that embeds
  \<open>data.targetUserId\<close>; \<open>callUser\<close> logs the target once more in either branch.
\<close>

definition users_on_callUser ::
  "sock \<Rightarrow> int \<Rightarrow> js_data \<Rightarrow> users_server \<Rightarrow> error + users_server" where
  "users_on_callUser sk uid data s =
     rendering [data ''targetUserId'']
       (case users_get s (data ''targetUserId'') of
          Some targetSocket \<Rightarrow>
            rendering [data ''targetUserId'']
              (Inr (users_emit targetSocket (IncomingCall (JNum uid) (data ''offer'')) s))
        | None \<Rightarrow> rendering [data ''targetUserId''] (Inr s))"

definition users_on_answerCall ::
  "sock \<Rightarrow> int \<Rightarrow> js_data \<Rightarrow> users_server \<Rightarrow> error + users_server" where
  "users_on_answerCall sk uid data s =
     rendering [data ''targetUserId'']
       (case users_get s (data ''targetUserId'') of
          Some targetSocket \<Rightarrow>
            Inr (users_emit targetSocket (UsersCallAnswered (JNum uid) (data ''answer'')) s)
        | None \<Rightarrow> Inr s)"

definition users_on_iceCandidate ::
  "sock \<Rightarrow> int \<Rightarrow> js_data \<Rightarrow> users_server \<Rightarrow> error + users_server" where
  "users_on_iceCandidate sk uid data s =
     rendering [data ''targetUserId'']
       (case users_get s (data ''targetUserId'') of
          Some targetSocket \<Rightarrow>
            Inr (users_emit targetSocket (IceCandidate (JNum uid) (data ''candidate'')) s)
        | None \<Rightarrow> Inr s)"

definition users_on_disconnect :: "sock \<Rightarrow> int \<Rightarrow> users_server \<Rightarrow> users_server" where
  "users_on_disconnect sk uid s = s\<lparr>onlineUsers := AList.delete uid (onlineUsers s)\<rparr>"

section \<open>Observations and sample runs\<close>

text \<open>What an operation emitted: the part of the log it appended.\<close>

definition emitted :: "server \<Rightarrow> server \<Rightarrow> (sock \<times> out_event) list" where
  "emitted s s' = drop (length (wire s)) (wire s')"


text \<open>An object literal: the listed fields, every other field \<open>undefined\<close>.\<close>

definition obj :: "(string \<times> jsval) list \<Rightarrow> js_data" where
  "obj fs k = (case map_of fs k of None \<Rightarrow> JUndefined | Some v \<Rightarrow> v)"

text \<open>
  What holds of the state at any time: the two nested \<open>Map\<close>s have one entry per key,
  every call id stored under a principal starts with that principal's id and a dash (it
  was minted by \<open>callUser\<close> for that principal), and the socket of a registered
  connection is connected and belongs to the principal the connection is registered under.
\<close>

definition minted_for :: "int \<Rightarrow> string \<Rightarrow> bool" where
  "minted_for u k \<longleftrightarrow> take (length (show_int u) + 1) k = show_int u @ ''-''"

definition wf_server :: "server \<Rightarrow> bool" where
  "wf_server s \<longleftrightarrow>
     distinct (map fst (connections s)) \<and>
     list_all (\<lambda>(u, c). distinct (map fst (calls c)) \<and>
                         list_all (\<lambda>(k, d). minted_for u k) (calls c) \<and>
                         map_of (io_sockets s) (socket c) = Some u) (connections s)"

text \<open>
  The notice \<open>endCall\<close> sends for one call of \<open>P\<close>: to the socket of the other
  participant when that participant is registered, to nobody otherwise.
\<close>

abbreviation ended_notice :: "int \<Rightarrow> server \<Rightarrow> call_data \<Rightarrow> (sock \<times> out_event) list" where
  "ended_notice P s callData \<equiv>
     (case get s (otherParticipantId callData) of
        None \<Rightarrow> []
      | Some otherParticipant \<Rightarrow>
          [(socket otherParticipant, CallEnded (JNum P) (JStr ''REMOTE_ENDED''))])"

text \<open>Users 1, 2 and 3 on sockets 10, 20 and 30; user 1 has called 2 and 3.\<close>

definition two_calls :: server where
  "two_calls =
     run [Connection 10 1 5, Connection 20 2 6, Connection 30 3 7,
          CallUser 10 (obj [(''userToCall'', JNum 2), (''from'', JNum 1),
                            (''signalData'', JStr ''sdp1''), (''callType'', JStr ''video'')])
            1000 1001,
          CallUser 10 (obj [(''userToCall'', JNum 3), (''from'', JNum 1),
                            (''signalData'', JStr ''sdp3''), (''callType'', JStr ''audio'')])
            1002 1003]
       init_server"

text \<open>Users 1 and 2 on sockets 10 and 20, nothing else yet.\<close>

definition two_users :: server where
  "two_users = run [Connection 10 1 5, Connection 20 2 6] init_server"

text \<open>The end-to-end run of the specification: 1 calls 2, 2 answers, 1 ends by call id.\<close>

definition call_payload :: js_data where
  "call_payload = obj [(''userToCall'', JNum 2), (''from'', JNum 1),
                       (''signalData'', JStr ''sdp1''), (''callType'', JStr ''video'')]"

definition answer_payload :: js_data where
  "answer_payload = obj [(''to'', JNum 1), (''signal'', JStr ''sdp2'')]"

definition end_payload :: js_data where
  "end_payload = obj [(''callId'', JStr ''1-2-1000'')]"

definition answered_call :: server where
  "answered_call = run [CallUser 10 call_payload 1000 1001, AnswerCall 20 answer_payload] two_users"

text \<open>A call from user 1 whose payload names user 99 as its origin.\<close>

definition spoofed_payload :: js_data where
  "spoofed_payload = obj [(''userToCall'', JNum 2), (''from'', JNum 99),
                          (''signalData'', JStr ''sdp1''), (''callType'', JStr ''video'')]"

text \<open>A payload whose target is an object with a key \<open>toString\<close> of its own.\<close>

definition unprintable_payload :: js_data where
  "unprintable_payload =
     obj [(''userToCall'', JObj [(''toString'', JNum 1)]),
          (''targetUserId'', JObj [(''toString'', JNum 1)])]"

text \<open>The users service with user 1 alone, on socket 10.\<close>

definition users_alone :: users_server where
  "users_alone = users_on_connection 10 1 \<lparr>onlineUsers = [], users_wire = []\<rparr>"

section \<open>Evaluating the sample runs\<close>

lemmas handler_defs = run_def on_socket_def on_connection_def on_sendMessage_def on_callUser_def
  on_answerCall_def on_callCandidate_def on_endCall_def on_disconnect_def on_error_def
  add_def addCall_def endCall_def remove_def get_def calls_get_def calls_delete_def
  emit_def broadcast_emit_def init_server_def mint_callId_def show_int_def show_nat.simps
  obj_def js_or_def Let_def rendering_def restart_def

lemma emit_simps [simp]:
  "connections (emit k e s) = connections s"
  "io_sockets (emit k e s) = io_sockets s"
  "wire (emit k e s) = wire s @ [(k, e)]"
  by (simp_all add: emit_def)

lemma two_calls_eq:
  "two_calls =
     \<lparr>connections =
        [(1, \<lparr>socket = 10, timestamp = 5,
              calls = [(''1-2-1000'', \<lparr>otherParticipantId = JNum 2, call_type = JStr ''video'',
                                       startTime = 1001\<rparr>),
                       (''1-3-1002'', \<lparr>otherParticipantId = JNum 3, call_type = JStr ''audio'',
                                       startTime = 1003\<rparr>)]\<rparr>),
         (2, \<lparr>socket = 20, timestamp = 6, calls = []\<rparr>),
         (3, \<lparr>socket = 30, timestamp = 7, calls = []\<rparr>)],
      io_sockets = [(10, 1), (20, 2), (30, 3)],
      wire = [(20, CallIncoming ''1-2-1000'' (JStr ''sdp1'') (JNum 1) (JStr ''video'')),
              (30, CallIncoming ''1-3-1002'' (JStr ''sdp3'') (JNum 1) (JStr ''audio''))]\<rparr>"
  unfolding two_calls_def by (simp add: handler_defs)

lemma two_users_eq:
  "two_users =
     \<lparr>connections = [(1, \<lparr>socket = 10, timestamp = 5, calls = []\<rparr>),
                     (2, \<lparr>socket = 20, timestamp = 6, calls = []\<rparr>)],
      io_sockets = [(10, 1), (20, 2)], wire = []\<rparr>"
  unfolding two_users_def by (simp add: handler_defs)

lemma answered_call_eq:
  "answered_call =
     \<lparr>connections =
        [(1, \<lparr>socket = 10, timestamp = 5,
              calls = [(''1-2-1000'', \<lparr>otherParticipantId = JNum 2, call_type = JStr ''video'',
                                       startTime = 1001\<rparr>)]\<rparr>),
         (2, \<lparr>socket = 20, timestamp = 6, calls = []\<rparr>)],
      io_sockets = [(10, 1), (20, 2)],
      wire = [(20, CallIncoming ''1-2-1000'' (JStr ''sdp1'') (JNum 1) (JStr ''video'')),
              (10, CallAnswered (JStr ''sdp2'') (JNum 2))]\<rparr>"
  unfolding answered_call_def two_users_eq call_payload_def answer_payload_def
  by (simp add: handler_defs)

lemma users_alone_eq: "users_alone = \<lparr>onlineUsers = [(1, 10)], users_wire = []\<rparr>"
  by (simp add: users_alone_def users_on_connection_def)

section \<open>Basic facts\<close>

lemma emitted_emit [simp]: "emitted s (emit k e s) = [(k, e)]"
  by (simp add: emitted_def)

lemma emitted_same [simp]: "emitted s s = []"
  by (simp add: emitted_def)

lemma list_all_update:
  "list_all Q al \<Longrightarrow> Q (k, v) \<Longrightarrow> list_all Q (AList.update k v al)"
  by (induction al) auto

lemma list_all_delete: "list_all Q al \<Longrightarrow> list_all Q (AList.delete k al)"
  by (simp add: AList.delete_eq list_all_iff)

lemma list_all_entry: "list_all Q al \<Longrightarrow> map_of al k = Some v \<Longrightarrow> Q (k, v)"
  by (auto simp: list_all_iff dest: map_of_SomeD)

lemma one_entry_after_update:
  "distinct (map fst al) \<Longrightarrow> length (filter (\<lambda>e. fst e = k) (AList.update k v al)) = 1"
proof (induction al)
  case Nil
  then show ?case by simp
next
  case (Cons e al)
  obtain k' v' where e: "e = (k', v')" by (cases e)
  show ?case
  proof (cases "k' = k")
    case True
    with Cons.prems e have "k \<notin> fst ` set al" by auto
    then have "filter (\<lambda>e. fst e = k) al = []" by (auto simp: filter_empty_conv)
    with True e show ?thesis by simp
  next
    case False
    with Cons e show ?thesis by simp
  qed
qed

section \<open>The state stays well formed\<close>

lemma wf_wire [simp]: "wf_server (s\<lparr>wire := w\<rparr>) = wf_server s"
  by (simp add: wf_server_def)

lemma wf_emit: "wf_server s \<Longrightarrow> wf_server (emit k e s)"
  by (simp add: wf_server_def)

lemma wf_broadcast_emit: "wf_server s \<Longrightarrow> wf_server (broadcast_emit k e s)"
  by (simp add: wf_server_def broadcast_emit_def)

lemma wf_change_calls:
  assumes "wf_server s" "map_of (connections s) P = Some c"
    and "distinct (map fst cs)" "list_all (\<lambda>(k, d). minted_for P k) cs"
  shows "wf_server (s\<lparr>connections := AList.update P (c\<lparr>calls := cs\<rparr>) (connections s)\<rparr>)"
proof -
  from assms(1,2) have "map_of (io_sockets s) (socket c) = Some P"
    unfolding wf_server_def by (auto dest: list_all_entry)
  with assms(1,3,4) show ?thesis
    unfolding wf_server_def by (simp add: AList.distinct_update list_all_update)
qed

lemma wf_addCall:
  assumes wf: "wf_server s" and minted: "minted_for P k"
  shows "wf_server (addCall P k d s)"
proof (cases "map_of (connections s) P")
  case None
  with wf show ?thesis by (simp add: addCall_def)
next
  case (Some c)
  with wf have old: "distinct (map fst (calls c))" "list_all (\<lambda>(k, d). minted_for P k) (calls c)"
    unfolding wf_server_def by (auto dest: list_all_entry)
  from old(1) have "distinct (map fst (AList.update k d (calls c)))"
    by (rule AList.distinct_update)
  moreover from old(2) minted
  have "list_all (\<lambda>(k, d). minted_for P k) (AList.update k d (calls c))"
    by (simp add: list_all_update)
  ultimately show ?thesis
    using wf_change_calls [OF wf Some] Some by (simp add: addCall_def)
qed

lemma minted_for_mint_callId: "minted_for uid (mint_callId uid target now)"
  by (simp add: minted_for_def mint_callId_def)

text \<open>\<open>endCall\<close> either does nothing or rewrites the call set of \<open>P\<close> and the log.\<close>

lemma endCall_shape:
  "endCall P C s = s \<or>
   (\<exists>c w. map_of (connections s) P = Some c \<and>
      endCall P C s =
        s\<lparr>connections :=
            AList.update P (c\<lparr>calls := calls_delete C (calls c)\<rparr>) (connections s),
          wire := w\<rparr>)"
proof (cases "map_of (connections s) P")
  case None
  then show ?thesis by (simp add: endCall_def)
next
  case (Some c)
  show ?thesis
  proof (cases "calls_get (calls c) C")
    case None
    with Some show ?thesis by (simp add: endCall_def)
  next
    case hit: (Some cd)
    show ?thesis
    proof (cases "get s (otherParticipantId cd)")
      case None
      with Some hit show ?thesis
        by (intro disjI2 exI [of _ c] exI [of _ "wire s"]) (simp add: endCall_def)
    next
      case other: (Some oc)
      with Some hit show ?thesis
        by (intro disjI2 exI [of _ c]
              exI [of _ "wire s @ [(socket oc, CallEnded (JNum P) (JStr ''REMOTE_ENDED''))]"])
           (simp add: endCall_def emit_def)
    qed
  qed
qed

lemma distinct_calls_delete:
  "distinct (map fst cs) \<Longrightarrow> distinct (map fst (calls_delete C cs))"
  by (cases C) (simp_all add: calls_delete_def AList.distinct_delete)

lemma list_all_calls_delete: "list_all Q cs \<Longrightarrow> list_all Q (calls_delete C cs)"
  by (cases C) (simp_all add: calls_delete_def list_all_delete)

lemma wf_endCall:
  assumes wf: "wf_server s"
  shows "wf_server (endCall P C s)"
proof -
  from endCall_shape [of P C s] show ?thesis
  proof
    assume "endCall P C s = s"
    with wf show ?thesis by simp
  next
    assume "\<exists>c w. map_of (connections s) P = Some c \<and>
      endCall P C s =
        s\<lparr>connections :=
            AList.update P (c\<lparr>calls := calls_delete C (calls c)\<rparr>) (connections s),
          wire := w\<rparr>"
    then obtain c w where reg: "map_of (connections s) P = Some c"
      and eq: "endCall P C s =
        s\<lparr>connections :=
            AList.update P (c\<lparr>calls := calls_delete C (calls c)\<rparr>) (connections s),
          wire := w\<rparr>"
      by blast
    from wf reg have old: "distinct (map fst (calls c))"
      "list_all (\<lambda>(k, d). minted_for P k) (calls c)"
      unfolding wf_server_def by (auto dest: list_all_entry)
    from old(1) have d: "distinct (map fst (calls_delete C (calls c)))"
      by (rule distinct_calls_delete)
    from old(2) have m: "list_all (\<lambda>(k, d). minted_for P k) (calls_delete C (calls c))"
      by (rule list_all_calls_delete)
    from wf_change_calls [OF wf reg d m] show ?thesis unfolding eq by simp
  qed
qed

lemma wf_forEach_endCall:
  "wf_server s \<Longrightarrow> wf_server (fold (\<lambda>(callId, call). endCall P (JStr callId)) cs s)"
  by (induction cs arbitrary: s) (auto simp: wf_endCall)

lemma wf_remove:
  assumes wf: "wf_server s"
  shows "wf_server (remove P s)"
proof (cases "map_of (connections s) P")
  case None
  with wf show ?thesis by (simp add: remove_def)
next
  case (Some c)
  from wf have "wf_server (fold (\<lambda>(callId, call). endCall P (JStr callId)) (calls c) s)"
    by (rule wf_forEach_endCall)
  then show ?thesis using Some
    by (simp add: remove_def Let_def wf_server_def AList.distinct_delete list_all_delete)
qed

lemma remove_unregisters: "(P, c) \<notin> set (connections (remove P s))"
proof (cases "map_of (connections s) P")
  case None
  then have "P \<notin> fst ` set (connections s)" by (simp add: map_of_eq_None_iff)
  with None show ?thesis by (force simp: remove_def)
next
  case (Some c')
  then show ?thesis
    using AList.delete_notin_dom [of P] by (force simp: remove_def Let_def)
qed

text \<open>The registry operations never read the set of connected sockets.\<close>

lemma endCall_io_sockets:
  "endCall P C (s\<lparr>io_sockets := x\<rparr>) = (endCall P C s)\<lparr>io_sockets := x\<rparr>"
  by (simp add: endCall_def get_def emit_def Let_def split: option.splits jsval.splits)

lemma forEach_endCall_io_sockets:
  "fold (\<lambda>(callId, call). endCall P (JStr callId)) cs (s\<lparr>io_sockets := x\<rparr>)
     = (fold (\<lambda>(callId, call). endCall P (JStr callId)) cs s)\<lparr>io_sockets := x\<rparr>"
  by (induction cs arbitrary: s) (auto simp: endCall_io_sockets)

lemma remove_io_sockets: "remove P (s\<lparr>io_sockets := x\<rparr>) = (remove P s)\<lparr>io_sockets := x\<rparr>"
  by (simp add: remove_def Let_def forEach_endCall_io_sockets split: option.splits)

lemma endCall_keeps_io_sockets: "io_sockets (endCall P C s) = io_sockets s"
  using endCall_shape [of P C s] by auto

lemma forEach_keeps_io_sockets:
  "io_sockets (fold (\<lambda>(callId, call). endCall P (JStr callId)) cs s) = io_sockets s"
  by (induction cs arbitrary: s) (auto simp: endCall_keeps_io_sockets)

lemma remove_keeps_io_sockets: "io_sockets (remove P s) = io_sockets s"
  by (simp add: remove_def Let_def forEach_keeps_io_sockets split: option.splits)

lemma wf_on_disconnect:
  assumes "wf_server s" "map_of (io_sockets s) sk = Some uid"
  shows "wf_server (on_disconnect sk uid s)"
proof -
  have wf: "wf_server (remove uid s)" using assms(1) by (rule wf_remove)
  have "map_of (AList.delete sk (io_sockets s)) (socket c) = Some u"
    if "(u, c) \<in> set (connections (remove uid s))" for u c
  proof -
    from wf that have bound: "map_of (io_sockets s) (socket c) = Some u"
      by (auto simp: wf_server_def list_all_iff remove_keeps_io_sockets)
    from that remove_unregisters [of uid c s] have "u \<noteq> uid" by auto
    with bound assms(2) have "socket c \<noteq> sk" by auto
    with bound show ?thesis by (simp add: AList.delete_conv')
  qed
  with wf show ?thesis
    by (auto simp: on_disconnect_def remove_io_sockets wf_server_def list_all_iff)
qed

lemma wf_on_connection:
  assumes "wf_server s" "map_of (io_sockets s) sk = None"
  shows "wf_server (on_connection sk uid now s)"
proof -
  have "map_of (AList.update sk uid (io_sockets s)) (socket c) = Some u"
    if "(u, c) \<in> set (connections s)" for u c
  proof -
    from assms(1) that have bound: "map_of (io_sockets s) (socket c) = Some u"
      by (auto simp: wf_server_def list_all_iff)
    with assms(2) have "socket c \<noteq> sk" by auto
    with bound show ?thesis by (simp add: AList.update_conv')
  qed
  then have "list_all (\<lambda>(u, c). distinct (map fst (calls c)) \<and>
        list_all (\<lambda>(k, d). minted_for u k) (calls c) \<and>
        map_of (AList.update sk uid (io_sockets s)) (socket c) = Some u) (connections s)"
    using assms(1) by (auto simp: wf_server_def list_all_iff)
  then show ?thesis using assms(1)
    by (simp add: on_connection_def add_def wf_server_def AList.distinct_update
        list_all_update AList.update_conv')
qed

lemma wf_step:
  assumes wf: "wf_server s"
  shows "wf_server (step ev s)"
proof (cases ev)
  case (Connection sk uid now)
  with wf show ?thesis by (simp add: wf_on_connection)
next
  case (SendMessage sk m)
  with wf show ?thesis
    by (simp add: on_socket_def on_sendMessage_def wf_broadcast_emit split: option.splits)
next
  case (CallUser sk d now1 now2)
  have "wf_server (restart s)" by (simp add: restart_def wf_server_def)
  with wf CallUser show ?thesis
    by (simp add: on_socket_def on_callUser_def rendering_def Let_def wf_emit wf_addCall
        minted_for_mint_callId split: option.splits)
next
  case (AnswerCall sk d)
  with wf show ?thesis
    by (simp add: on_socket_def on_answerCall_def wf_emit split: option.splits)
next
  case (CallCandidateEv sk d)
  with wf show ?thesis
    by (simp add: on_socket_def on_callCandidate_def wf_emit split: option.splits)
next
  case (EndCall sk d)
  with wf show ?thesis
    by (simp add: on_socket_def on_endCall_def wf_emit wf_endCall split: option.splits)
next
  case (Disconnect sk)
  with wf show ?thesis
    by (simp add: on_socket_def wf_on_disconnect split: option.splits)
next
  case (ErrorEv sk)
  with wf show ?thesis
    by (simp add: on_socket_def on_error_def wf_remove split: option.splits)
qed

lemma wf_run: "wf_server s \<Longrightarrow> wf_server (run evs s)"
  unfolding run_def by (induction evs arbitrary: s) (simp_all add: wf_step)

lemma wf_reachable: "wf_server (run evs init_server)"
  by (rule wf_run) (simp add: wf_server_def init_server_def)

section \<open>A call id names its caller\<close>

lemma digit_of_less_10: "n < 10 \<Longrightarrow> ''0123456789'' ! n \<in> set ''0123456789''"
  by (rule nth_mem) simp

lemma digit_inj:
  assumes "a < 10" "b < 10" "''0123456789'' ! a = ''0123456789'' ! b"
  shows "a = (b::nat)"
proof -
  have "distinct ''0123456789''" by simp
  moreover have "a < length ''0123456789''" "b < length ''0123456789''"
    using assms(1,2) by simp_all
  ultimately show ?thesis using assms(3) by (simp only: nth_eq_iff_index_eq)
qed

lemma show_nat_digits: "set (show_nat n) \<subseteq> set ''0123456789''"
proof (induction n rule: show_nat.induct)
  case (1 n)
  show ?case
  proof (cases "n < 10")
    case True
    then have "show_nat n = [''0123456789'' ! n]" by (simp add: show_nat.simps)
    with digit_of_less_10 [OF True] show ?thesis by simp
  next
    case False
    then have eq: "show_nat n = show_nat (n div 10) @ [''0123456789'' ! (n mod 10)]"
      by (simp add: show_nat.simps)
    have "n mod 10 < 10" by simp
    from digit_of_less_10 [OF this] 1 [OF False] show ?thesis unfolding eq by simp
  qed
qed

lemma show_nat_nonempty: "show_nat n \<noteq> []"
  by (subst show_nat.simps) simp

lemma show_nat_no_dash: "CHR ''-'' \<notin> set (show_nat n)"
  using show_nat_digits [of n] by auto

lemma show_nat_inj: "show_nat a = show_nat b \<Longrightarrow> a = b"
proof (induction a arbitrary: b rule: show_nat.induct)
  case (1 a)
  show ?case
  proof (cases "a < 10")
    case small_a: True
    then have a: "show_nat a = [''0123456789'' ! a]" by (simp add: show_nat.simps)
    show ?thesis
    proof (cases "b < 10")
      case True
      then have "show_nat b = [''0123456789'' ! b]" by (simp add: show_nat.simps)
      with a "1.prems" have "''0123456789'' ! a = ''0123456789'' ! b" by simp
      with small_a True show ?thesis by (rule digit_inj)
    next
      case False
      then have "show_nat b = show_nat (b div 10) @ [''0123456789'' ! (b mod 10)]"
        by (simp add: show_nat.simps)
      with a "1.prems" show_nat_nonempty [of "b div 10"] show ?thesis by simp
    qed
  next
    case big_a: False
    then have a: "show_nat a = show_nat (a div 10) @ [''0123456789'' ! (a mod 10)]"
      by (simp add: show_nat.simps)
    show ?thesis
    proof (cases "b < 10")
      case True
      then have "show_nat b = [''0123456789'' ! b]" by (simp add: show_nat.simps)
      with a "1.prems" show_nat_nonempty [of "a div 10"] show ?thesis by simp
    next
      case False
      then have "show_nat b = show_nat (b div 10) @ [''0123456789'' ! (b mod 10)]"
        by (simp add: show_nat.simps)
      with a "1.prems" have front: "show_nat (a div 10) = show_nat (b div 10)"
        and units: "''0123456789'' ! (a mod 10) = ''0123456789'' ! (b mod 10)"
        by simp_all
      from "1.IH" [OF big_a front] have "a div 10 = b div 10" .
      moreover have "a mod 10 = b mod 10"
        by (rule digit_inj [OF _ _ units]) simp_all
      ultimately show ?thesis by (metis div_mult_mod_eq)
    qed
  qed
qed

lemma same_up_to_first:
  "x \<notin> set xs \<Longrightarrow> x \<notin> set xs' \<Longrightarrow> xs @ x # ys = xs' @ x # ys' \<Longrightarrow> xs = xs'"
proof (induction xs arbitrary: xs')
  case Nil
  then show ?case by (cases xs') auto
next
  case (Cons a xs)
  then show ?case by (cases xs') auto
qed

lemma show_int_dash_inj:
  assumes "show_int a @ CHR ''-'' # r = show_int b @ CHR ''-'' # r'"
  shows "a = b"
proof -
  have pos: "x = y" if "show_nat x @ CHR ''-'' # r = show_nat y @ CHR ''-'' # r'" for x y
  proof -
    from show_nat_no_dash [of x] show_nat_no_dash [of y] that
    have "show_nat x = show_nat y" by (rule same_up_to_first)
    then show ?thesis by (rule show_nat_inj)
  qed
  have mixed: False if "CHR ''-'' # t = show_nat y @ t'" for y t t'
  proof -
    from show_nat_nonempty [of y] obtain c cs where y: "show_nat y = c # cs"
      by (cases "show_nat y") auto
    with that have "c = CHR ''-''" by simp
    with y show_nat_no_dash [of y] show False by simp
  qed
  show ?thesis
  proof (cases "a < 0")
    case neg_a: True
    show ?thesis
    proof (cases "b < 0")
      case True
      with neg_a assms have "nat (- a) = nat (- b)"
        by (intro pos) (simp add: show_int_def)
      with neg_a True show ?thesis by simp
    next
      case False
      with neg_a assms mixed [of "show_nat (nat (- a)) @ CHR ''-'' # r" "nat b" "CHR ''-'' # r'"]
      show ?thesis by (simp add: show_int_def)
    qed
  next
    case pos_a: False
    show ?thesis
    proof (cases "b < 0")
      case True
      with pos_a assms mixed [of "show_nat (nat (- b)) @ CHR ''-'' # r'" "nat a" "CHR ''-'' # r"]
      show ?thesis by (simp add: show_int_def)
    next
      case False
      with pos_a assms have "nat a = nat b"
        by (intro pos) (simp add: show_int_def)
      with pos_a False show ?thesis by simp
    qed
  qed
qed

lemma minted_for_one_caller:
  assumes "minted_for a k" "minted_for b k"
  shows "a = b"
proof -
  from assms(1) have "k = (show_int a @ ''-'') @ drop (length (show_int a) + 1) k"
    unfolding minted_for_def by (metis append_take_drop_id)
  moreover from assms(2) have "k = (show_int b @ ''-'') @ drop (length (show_int b) + 1) k"
    unfolding minted_for_def by (metis append_take_drop_id)
  ultimately have "show_int a @ CHR ''-'' # drop (length (show_int a) + 1) k
      = show_int b @ CHR ''-'' # drop (length (show_int b) + 1) k"
    by simp
  then show ?thesis by (rule show_int_dash_inj)
qed

lemma call_id_minted:
  assumes "map_of (connections (run evs init_server)) A = Some ca" "map_of (calls ca) k = Some cd"
  shows "minted_for A k"
proof -
  have "wf_server (run evs init_server)" by (rule wf_reachable)
  with assms(1) have "list_all (\<lambda>(k, d). minted_for A k) (calls ca)"
    unfolding wf_server_def by (auto dest: list_all_entry)
  with assms(2) show ?thesis by (auto dest: list_all_entry)
qed

text \<open>In a reachable state a call id is a key of the call set of one principal at most.\<close>

lemma call_id_one_owner:
  assumes "map_of (connections (run evs init_server)) A = Some ca" "map_of (calls ca) k = Some cd"
    and "map_of (connections (run evs init_server)) B = Some cb" "B \<noteq> A"
  shows "map_of (calls cb) k = None"
proof (rule ccontr)
  assume "map_of (calls cb) k \<noteq> None"
  then obtain cd' where hit: "map_of (calls cb) k = Some cd'" by auto
  have wf: "wf_server (run evs init_server)" by (rule wf_reachable)
  from wf assms(1) have "list_all (\<lambda>(k, d). minted_for A k) (calls ca)"
    unfolding wf_server_def by (auto dest: list_all_entry)
  with assms(2) have a: "minted_for A k" by (auto dest: list_all_entry)
  from wf assms(3) have "list_all (\<lambda>(k, d). minted_for B k) (calls cb)"
    unfolding wf_server_def by (auto dest: list_all_entry)
  with hit have b: "minted_for B k" by (auto dest: list_all_entry)
  from minted_for_one_caller [OF a b] assms(4) show False by simp
qed

section \<open>Registering a principal twice\<close>

text \<open>
  Claim C5. The registry never holds two entries for one principal: in every state the
  messages service reaches the keys of \<open>connections\<close> are distinct, and in both services
  registering \<open>P\<close> with handle \<open>h1\<close> and then with \<open>h2\<close> (on a registry with one entry
  per key) leaves exactly one entry under \<open>P\<close>, keeps the keys distinct, and a lookup of
  \<open>P\<close> returns the connection made from \<open>h2\<close>.
\<close>

theorem register_twice_one_entry:
  "distinct (map fst (connections (run evs init_server))) \<and>
   (distinct (map fst (connections s)) \<longrightarrow>
      length (filter (\<lambda>e. fst e = P) (connections (add P h2 t2 (add P h1 t1 s)))) = 1 \<and>
      distinct (map fst (connections (add P h2 t2 (add P h1 t1 s)))) \<and>
      get (add P h2 t2 (add P h1 t1 s)) (JNum P)
        = Some \<lparr>socket = h2, timestamp = t2, calls = []\<rparr>) \<and>
   (distinct (map fst (onlineUsers us)) \<longrightarrow>
      length (filter (\<lambda>e. fst e = P)
        (onlineUsers (users_on_connection h2 P (users_on_connection h1 P us)))) = 1 \<and>
      distinct (map fst (onlineUsers (users_on_connection h2 P (users_on_connection h1 P us)))) \<and>
      users_get (users_on_connection h2 P (users_on_connection h1 P us)) (JNum P) = Some h2)"
proof -
  have "distinct (map fst (connections (run evs init_server)))"
    using wf_reachable [of evs] by (simp add: wf_server_def)
  then show ?thesis
    by (simp add: add_def users_on_connection_def get_def users_get_def one_entry_after_update
        AList.distinct_update AList.update_conv')
qed

theorem register_twice_one_entry_witness:
  "distinct (map fst (connections two_users)) \<and>
   connections (add 1 11 8 (add 1 12 7 two_users))
     = [(1, \<lparr>socket = 11, timestamp = 8, calls = []\<rparr>),
        (2, \<lparr>socket = 20, timestamp = 6, calls = []\<rparr>)] \<and>
   length (filter (\<lambda>e. fst e = 1) (connections (add 1 11 8 (add 1 12 7 two_users)))) = 1 \<and>
   get (add 1 11 8 (add 1 12 7 two_users)) (JNum 1)
     = Some \<lparr>socket = 11, timestamp = 8, calls = []\<rparr> \<and>
   distinct (map fst (onlineUsers users_alone)) \<and>
   onlineUsers (users_on_connection 11 1 (users_on_connection 12 1 users_alone)) = [(1, 11)] \<and>
   users_get (users_on_connection 11 1 (users_on_connection 12 1 users_alone)) (JNum 1) = Some 11"
  using register_twice_one_entry [of "[]" two_users 1 11 8 12 7 users_alone]
  by (simp add: two_users_eq users_alone_eq add_def users_on_connection_def get_def users_get_def)

section \<open>Removing a connection ends its calls\<close>

lemma endCall_hit:
  assumes "map_of (connections s) P = Some c" "map_of (calls c) k = Some cd"
  shows "endCall P (JStr k) s =
           s\<lparr>connections :=
               AList.update P (c\<lparr>calls := AList.delete k (calls c)\<rparr>) (connections s),
             wire := wire s @ ended_notice P s cd\<rparr>"
  using assms
  by (cases "get s (otherParticipantId cd)")
     (simp_all add: endCall_def calls_get_def calls_delete_def emit_def)

lemma get_after_calls_change:
  assumes "map_of (connections s) P = Some c" "socket c' = socket c"
  shows "map_option socket
           (get (s\<lparr>connections := AList.update P c' (connections s), wire := w\<rparr>) j)
           = map_option socket (get s j)"
  using assms by (cases j) (simp_all add: get_def AList.update_conv')

lemma ended_notice_cong:
  "map_option socket (get s' j) = map_option socket (get s j) \<Longrightarrow>
   (case get s' j of None \<Rightarrow> [] | Some oc \<Rightarrow> [(socket oc, e)])
     = (case get s j of None \<Rightarrow> [] | Some oc \<Rightarrow> [(socket oc, e)])"
  by (cases "get s' j"; cases "get s j") simp_all

text \<open>
  The \<open>forEach\<close> of \<open>remove\<close>: every call of \<open>P\<close> is ended in turn, which empties the call
  set and sends one notice per call whose other participant is registered.
\<close>

lemma forEach_endCall:
  assumes "map_of (connections s) P = Some c" "calls c = cs" "distinct (map fst cs)"
  shows "fold (\<lambda>(callId, call). endCall P (JStr callId)) cs s =
           s\<lparr>connections := AList.update P (c\<lparr>calls := []\<rparr>) (connections s),
             wire := wire s @ concat (map (\<lambda>(callId, call). ended_notice P s call) cs)\<rparr>"
  using assms
proof (induction cs arbitrary: s c)
  case Nil
  then have "c\<lparr>calls := []\<rparr> = c" by simp
  with Nil show ?case by (simp add: AList.update_triv)
next
  case (Cons e cs)
  obtain k cd where e: "e = (k, cd)" by (cases e)
  let ?c' = "c\<lparr>calls := cs\<rparr>"
  let ?s' = "s\<lparr>connections := AList.update P ?c' (connections s),
               wire := wire s @ ended_notice P s cd\<rparr>"
  from Cons.prems e have fresh: "k \<notin> fst ` set cs" and dist: "distinct (map fst cs)"
    by auto
  have hit: "map_of (calls c) k = Some cd"
    using Cons.prems(2) e by simp
  have del: "AList.delete k (calls c) = cs"
    using Cons.prems(2) e fresh by (simp add: AList.delete_id)
  have one: "endCall P (JStr k) s = ?s'"
    using endCall_hit [OF Cons.prems(1) hit] del by simp
  have reg': "map_of (connections ?s') P = Some ?c'"
    by (simp add: AList.update_conv')
  have same: "ended_notice P ?s' x = ended_notice P s x" for x
    by (rule ended_notice_cong, rule get_after_calls_change [OF Cons.prems(1)]) simp
  have "fold (\<lambda>(callId, call). endCall P (JStr callId)) (e # cs) s
          = fold (\<lambda>(callId, call). endCall P (JStr callId)) cs ?s'"
    using e one by simp
  also have "\<dots> =
      ?s'\<lparr>connections := AList.update P (?c'\<lparr>calls := []\<rparr>) (connections ?s'),
          wire := wire ?s' @ concat (map (\<lambda>(callId, call). ended_notice P ?s' call) cs)\<rparr>"
    by (rule Cons.IH [OF reg' _ dist]) simp
  also have "\<dots> =
      s\<lparr>connections := AList.update P (c\<lparr>calls := []\<rparr>) (connections s),
        wire := wire s @ concat (map (\<lambda>(callId, call). ended_notice P s call) (e # cs))\<rparr>"
    using e by (simp add: same)
  finally show ?case .
qed

text \<open>
  Claim C1. Let \<open>P\<close> be registered with connection \<open>c\<close> (its call set having one entry
  per call id, as a \<open>Map\<close> has). Then \<open>remove P\<close> emits, in the order of the call set and
  for each call whose other participant is registered, one \<open>callEnded\<close> to that
  participant's socket with \<open>from = P\<close> and reason \<open>REMOTE_ENDED\<close>, and nothing else; the
  walk over the calls leaves the call set of \<open>P\<close> empty; afterwards \<open>P\<close> has no entry in
  the registry, and every other entry is as before.
\<close>

theorem remove_ends_every_call:
  assumes "map_of (connections s) P = Some c" "distinct (map fst (calls c))"
  shows "emitted s (remove P s)
           = concat (map (\<lambda>(callId, call). ended_notice P s call) (calls c)) \<and>
         map_of (connections (fold (\<lambda>(callId, call). endCall P (JStr callId)) (calls c) s)) P
           = Some (c\<lparr>calls := []\<rparr>) \<and>
         get (remove P s) (JNum P) = None \<and>
         (\<forall>Q. Q \<noteq> P \<longrightarrow> map_of (connections (remove P s)) Q = map_of (connections s) Q) \<and>
         io_sockets (remove P s) = io_sockets s"
  using assms forEach_endCall [OF assms(1) refl assms(2)]
  by (simp add: remove_def Let_def emitted_def get_def AList.delete_conv' AList.update_conv')

theorem remove_ends_every_call_witness:
  "map_of (connections two_calls) 1
     = Some \<lparr>socket = 10, timestamp = 5,
             calls = [(''1-2-1000'', \<lparr>otherParticipantId = JNum 2, call_type = JStr ''video'',
                                      startTime = 1001\<rparr>),
                      (''1-3-1002'', \<lparr>otherParticipantId = JNum 3, call_type = JStr ''audio'',
                                      startTime = 1003\<rparr>)]\<rparr> \<and>
   distinct [''1-2-1000'', ''1-3-1002''] \<and>
   emitted two_calls (remove 1 two_calls)
     = [(20, CallEnded (JNum 1) (JStr ''REMOTE_ENDED'')),
        (30, CallEnded (JNum 1) (JStr ''REMOTE_ENDED''))] \<and>
   get (remove 1 two_calls) (JNum 1) = None \<and>
   connections (remove 1 two_calls)
     = [(2, \<lparr>socket = 20, timestamp = 6, calls = []\<rparr>),
        (3, \<lparr>socket = 30, timestamp = 7, calls = []\<rparr>)]"
  using remove_ends_every_call [of two_calls 1
      "\<lparr>socket = 10, timestamp = 5,
        calls = [(''1-2-1000'', \<lparr>otherParticipantId = JNum 2, call_type = JStr ''video'',
                                 startTime = 1001\<rparr>),
                 (''1-3-1002'', \<lparr>otherParticipantId = JNum 3, call_type = JStr ''audio'',
                                 startTime = 1003\<rparr>)]\<rparr>"]
  by (simp add: two_calls_eq get_def remove_def endCall_def calls_get_def calls_delete_def
      emit_def emitted_def Let_def)

section \<open>Removal is idempotent\<close>

text \<open>
  Claim C6. \<open>remove P\<close> on a state where \<open>P\<close> is not registered returns the state as it
  is (no error, nothing emitted), and a second \<open>remove P\<close> right after a first one changes
  nothing: neither the registry nor the log of emitted events.
\<close>

theorem remove_idempotent:
  "(map_of (connections s) P = None \<longrightarrow> remove P s = s) \<and>
   remove P (remove P s) = remove P s"
proof -
  have gone: "map_of (connections (remove P s)) P = None"
    by (cases "map_of (connections s) P") (simp_all add: remove_def Let_def AList.delete_conv')
  have absent: "\<And>t. map_of (connections t) P = None \<Longrightarrow> remove P t = t"
    by (simp add: remove_def)
  show ?thesis using absent [OF gone] absent by blast
qed

theorem remove_idempotent_witness:
  "map_of (connections two_calls) 7 = None \<and> remove 7 two_calls = two_calls \<and>
   remove 1 (remove 1 two_calls) = remove 1 two_calls \<and>
   emitted (remove 1 two_calls) (remove 1 (remove 1 two_calls)) = []"
  using remove_idempotent [of two_calls 7] remove_idempotent [of two_calls 1]
  by (simp add: two_calls_eq emitted_def)

section \<open>Calling a principal that is not registered\<close>

text \<open>The log line of a miss: a target that does not convert to a string ends the handler
  before anything is emitted, in both services.\<close>

lemma callUser_unprintable_target_throws:
  "get two_users (unprintable_payload ''userToCall'') = None \<and>
   on_callUser 10 1 unprintable_payload 1000 1001 two_users = Inl TypeError \<and>
   users_on_callUser 10 1 unprintable_payload users_alone = Inl TypeError \<and>
   users_on_answerCall 10 1 unprintable_payload users_alone = Inl TypeError \<and>
   users_on_iceCandidate 10 1 unprintable_payload users_alone = Inl TypeError"
  by (simp add: unprintable_payload_def obj_def get_def on_callUser_def users_on_callUser_def
      users_on_answerCall_def users_on_iceCandidate_def rendering_def)




section \<open>The origin named in an incoming call\<close>

text \<open>
  Claim C4. The \<open>callIncoming\<close> event should name the calling principal as its origin.
  In the messages service it carries the \<open>from\<close> field of the payload instead: socket 10
  belongs to user 1, its \<open>callUser\<close> payload says \<open>from: 99\<close>, and user 2 is told the call
  comes from 99.
\<close>

theorem callUser_from_is_payload_field:
  "map_of (io_sockets two_users) 10 = Some 1 \<and>
   emitted two_users (step (CallUser 10 spoofed_payload 1000 1001) two_users)
     = [(20, CallIncoming ''1-2-1000'' (JStr ''sdp1'') (JNum 99) (JStr ''video''))]"
  by (simp add: two_users_eq spoofed_payload_def emitted_def handler_defs)

section \<open>Ending a call by its id\<close>

text \<open>
  Claim C3, amended. In any state the server reaches, let \<open>A\<close> and \<open>B\<close> be registered,
  \<open>A\<close> call \<open>B\<close> (the handler running to its end: the \<open>from\<close> field is one the log line
  can print), \<open>B\<close> answer, and \<open>A\<close> then send \<open>endCall\<close> with the call id minted for the
  call. The call reaches the socket of \<open>B\<close>, the answer the socket of \<open>A\<close>, and the end
  makes exactly one emission: \<open>callEnded\<close> to the socket of \<open>B\<close> with \<open>from = A\<close> and
  reason \<open>REMOTE_ENDED\<close>. Afterwards the call id is a key of no call set in the registry.
\<close>

theorem end_by_call_id_notifies_callee:
  assumes "s = run evs init_server"
    and "map_of (connections s) A = Some ca" "map_of (connections s) B = Some cb"
    and "d1 ''userToCall'' = JNum B" "\<not> js_throws (d1 ''from'')" "d2 ''to'' = JNum A"
    and "d3 ''callId'' = JStr (mint_callId A (JNum B) t1)"
  shows "case on_callUser ska A d1 t1 t2 s of
           Inl e \<Rightarrow> False
         | Inr s1 \<Rightarrow>
             emitted s s1
               = [(socket cb, CallIncoming (mint_callId A (JNum B) t1) (d1 ''signalData'')
                     (d1 ''from'') (d1 ''callType''))] \<and>
             emitted s1 (on_answerCall skb B d2 s1)
               = [(socket ca, CallAnswered (d2 ''signal'') (JNum B))] \<and>
             emitted (on_answerCall skb B d2 s1) (on_endCall ska A d3 (on_answerCall skb B d2 s1))
               = [(socket cb, CallEnded (JNum A) (JStr ''REMOTE_ENDED''))] \<and>
             (\<forall>U c. map_of (connections (on_endCall ska A d3 (on_answerCall skb B d2 s1))) U
                      = Some c \<longrightarrow>
                    calls_get (calls c) (d3 ''callId'') = None)"
proof -
  let ?cid = "mint_callId A (JNum B) t1"
  let ?s1 = "emit (socket cb)
               (CallIncoming ?cid (d1 ''signalData'') (d1 ''from'') (d1 ''callType''))
               (addCall A ?cid \<lparr>otherParticipantId = JNum B, call_type = d1 ''callType'',
                                startTime = t2\<rparr> s)"
  let ?s2 = "on_answerCall skb B d2 ?s1"
  let ?s3 = "on_endCall ska A d3 ?s2"
  have wf: "wf_server s" using assms(1) by (simp add: wf_reachable)
  have started: "on_callUser ska A d1 t1 t2 s = Inr ?s1"
    using assms(3,4,5) by (simp add: on_callUser_def get_def rendering_def Let_def)
  have rang: "emitted s ?s1
      = [(socket cb, CallIncoming ?cid (d1 ''signalData'') (d1 ''from'') (d1 ''callType''))]"
    using assms(2) by (simp add: emitted_def addCall_def)
  have answered: "emitted ?s1 ?s2 = [(socket ca, CallAnswered (d2 ''signal'') (JNum B))]"
    using assms(2,6)
    by (simp add: on_answerCall_def get_def addCall_def emitted_def AList.update_conv')
  have ended: "emitted ?s2 ?s3 = [(socket cb, CallEnded (JNum A) (JStr ''REMOTE_ENDED''))]
      \<and> map_option (\<lambda>c. calls_get (calls c) (JStr ?cid)) (map_of (connections ?s3) A)
          = Some None"
    using assms(2,3,6,7)
    by (cases "B = A")
       (simp_all add: on_answerCall_def on_endCall_def endCall_def addCall_def
         get_def calls_get_def calls_delete_def emit_def emitted_def Let_def mint_callId_def
         AList.update_conv' AList.delete_conv')
  have wf1: "wf_server ?s1"
    by (intro wf_emit wf_addCall wf minted_for_mint_callId)
  have wf2: "wf_server ?s2"
    using wf1 by (simp add: on_answerCall_def wf_emit split: option.splits)
  have wf3: "wf_server ?s3"
    using wf2 by (simp add: on_endCall_def wf_emit wf_endCall split: option.splits)
  have gone: "calls_get (calls c) (d3 ''callId'') = None"
    if reg: "map_of (connections ?s3) U = Some c" for U c
  proof (cases "U = A")
    case True
    with ended reg assms(7) show ?thesis by simp
  next
    case False
    show ?thesis
    proof (rule ccontr)
      assume "calls_get (calls c) (d3 ''callId'') \<noteq> None"
      then obtain cd where hit: "map_of (calls c) ?cid = Some cd"
        using assms(7) by (auto simp: calls_get_def)
      from wf3 reg have "list_all (\<lambda>(k, d). minted_for U k) (calls c)"
        unfolding wf_server_def by (auto dest: list_all_entry)
      with hit have "minted_for U ?cid" by (auto dest: list_all_entry)
      from minted_for_one_caller [OF this minted_for_mint_callId] False show False by simp
    qed
  qed
  show ?thesis unfolding started using rang answered ended gone by simp
qed

theorem end_by_call_id_notifies_callee_witness:
  "two_users = run [Connection 10 1 5, Connection 20 2 6] init_server \<and>
   map_of (connections two_users) 1 = Some \<lparr>socket = 10, timestamp = 5, calls = []\<rparr> \<and>
   map_of (connections two_users) 2 = Some \<lparr>socket = 20, timestamp = 6, calls = []\<rparr> \<and>
   call_payload ''userToCall'' = JNum 2 \<and>
   js_throws (call_payload ''from'') = False \<and>
   answer_payload ''to'' = JNum 1 \<and>
   end_payload ''callId'' = JStr (mint_callId 1 (JNum 2) 1000) \<and>
   map_sum id (on_answerCall 20 2 answer_payload)
       (on_callUser 10 1 call_payload 1000 1001 two_users)
     = Inr answered_call \<and>
   emitted answered_call (on_endCall 10 1 end_payload answered_call)
     = [(20, CallEnded (JNum 1) (JStr ''REMOTE_ENDED''))] \<and>
   connections (on_endCall 10 1 end_payload answered_call)
     = [(1, \<lparr>socket = 10, timestamp = 5, calls = []\<rparr>),
        (2, \<lparr>socket = 20, timestamp = 6, calls = []\<rparr>)]"
  using end_by_call_id_notifies_callee
    [where s = two_users and evs = "[Connection 10 1 5, Connection 20 2 6]"
       and A = 1 and B = 2
       and ca = "\<lparr>socket = 10, timestamp = 5, calls = []\<rparr>"
       and cb = "\<lparr>socket = 20, timestamp = 6, calls = []\<rparr>"
       and ?d1.0 = call_payload and ?d2.0 = answer_payload and ?d3.0 = end_payload
       and ?t1.0 = 1000 and ?t2.0 = 1001 and ska = 10 and skb = 20]
  by (simp add: two_users_def [symmetric])
     (simp add: answered_call_eq two_users_eq call_payload_def answer_payload_def
        end_payload_def emitted_def handler_defs)

text \<open>
  The claim as first stated names the reason \<open>NORMAL\<close>. In the end-to-end run (user 1
  calls user 2, 2 answers, 1 ends with the call id) the one event emitted carries
  \<open>REMOTE_ENDED\<close>, and no \<open>callEnded\<close> with reason \<open>NORMAL\<close> is sent to user 2.
\<close>

theorem end_by_call_id_reason_not_normal:
  "emitted answered_call (step (EndCall 10 end_payload) answered_call)
     = [(20, CallEnded (JNum 1) (JStr ''REMOTE_ENDED''))] \<and>
   (20, CallEnded (JNum 1) (JStr ''NORMAL''))
     \<notin> set (emitted answered_call (step (EndCall 10 end_payload) answered_call))"
  by (simp add: answered_call_eq end_payload_def emitted_def handler_defs)

text \<open>
  Claim C10. \<open>endCall U C\<close> touches only the call set of \<open>U\<close>: the entry of every other
  principal stays as it was, and when \<open>C\<close> is not a key of the call set of \<open>U\<close> the
  whole state, log included, is returned unchanged; so is it by the \<open>endCall\<close> handler
  given that call id. In every state the server reaches, a call id stored under a
  principal \<open>A\<close> is in no other principal's call set, so any \<open>U\<close> other than \<open>A\<close> (the
  callee of the call, say) that ends it by its id changes nothing and notifies nobody.
\<close>

theorem endCall_own_calls_only:
  "(\<forall>V. V \<noteq> U \<longrightarrow> map_of (connections (endCall U C s)) V = map_of (connections s) V) \<and>
   ((\<forall>c. map_of (connections s) U = Some c \<longrightarrow> calls_get (calls c) C = None) \<longrightarrow>
      endCall U C s = s \<and>
      (d ''callId'' = C \<and> js_truthy C \<longrightarrow> on_endCall sk U d s = s)) \<and>
   (map_of (connections (run evs init_server)) A = Some ca \<and>
    map_of (calls ca) k = Some cd \<and> U \<noteq> A \<longrightarrow>
      endCall U (JStr k) (run evs init_server) = run evs init_server \<and>
      (d ''callId'' = JStr k \<longrightarrow>
         on_endCall sk U d (run evs init_server) = run evs init_server))"
proof -
  have others:
    "\<forall>V. V \<noteq> U \<longrightarrow> map_of (connections (endCall U C s)) V = map_of (connections s) V"
    by (auto simp: endCall_def Let_def AList.update_conv' split: option.splits)
  have own: "endCall U C' t = t"
    if "\<forall>c. map_of (connections t) U = Some c \<longrightarrow> calls_get (calls c) C' = None" for C' t
    using that by (auto simp: endCall_def split: option.splits)
  have foreign: "endCall U (JStr k) (run evs init_server) = run evs init_server \<and> k \<noteq> []"
    if reg: "map_of (connections (run evs init_server)) A = Some ca"
      and hit: "map_of (calls ca) k = Some cd" and other: "U \<noteq> A"
  proof -
    have "calls_get (calls cb) (JStr k) = None"
      if "map_of (connections (run evs init_server)) U = Some cb" for cb
      using call_id_one_owner [OF reg hit that other] by (simp add: calls_get_def)
    then have "endCall U (JStr k) (run evs init_server) = run evs init_server"
      by (intro own) simp
    moreover have "k \<noteq> []"
      using call_id_minted [OF reg hit] by (auto simp: minted_for_def)
    ultimately show ?thesis by simp
  qed
  show ?thesis using others own [of s C] foreign by (simp add: on_endCall_def)
qed

theorem endCall_own_calls_only_witness:
  "run [Connection 10 1 5, Connection 20 2 6, CallUser 10 call_payload 1000 1001,
        AnswerCall 20 answer_payload] init_server
     = answered_call \<and>
   map_of (connections answered_call) 2 = Some \<lparr>socket = 20, timestamp = 6, calls = []\<rparr> \<and>
   calls_get [] (JStr ''1-2-1000'') = None \<and>
   map_of (connections answered_call) 1
     = Some \<lparr>socket = 10, timestamp = 5,
             calls = [(''1-2-1000'', \<lparr>otherParticipantId = JNum 2, call_type = JStr ''video'',
                                      startTime = 1001\<rparr>)]\<rparr> \<and>
   end_payload ''callId'' = JStr ''1-2-1000'' \<and>
   endCall 2 (JStr ''1-2-1000'') answered_call = answered_call \<and>
   on_endCall 20 2 end_payload answered_call = answered_call"
proof -
  have reach: "run [Connection 10 1 5, Connection 20 2 6, CallUser 10 call_payload 1000 1001,
        AnswerCall 20 answer_payload] init_server = answered_call"
    by (simp add: answered_call_def two_users_def run_def)
  show ?thesis
    using endCall_own_calls_only
      [where U = 2 and C = "JStr ''1-2-1000''" and s = answered_call and d = end_payload
         and sk = 20 and A = 1 and k = "''1-2-1000''"
         and evs = "[Connection 10 1 5, Connection 20 2 6, CallUser 10 call_payload 1000 1001,
                     AnswerCall 20 answer_payload]"
         and ca = "\<lparr>socket = 10, timestamp = 5,
             calls = [(''1-2-1000'', \<lparr>otherParticipantId = JNum 2, call_type = JStr ''video'',
                                      startTime = 1001\<rparr>)]\<rparr>"
         and cd = "\<lparr>otherParticipantId = JNum 2, call_type = JStr ''video'',
                                      startTime = 1001\<rparr>"]
    unfolding reach
    by (simp add: answered_call_eq calls_get_def end_payload_def obj_def)
qed

section \<open>Broadcast of a chat message\<close>

text \<open>
  Claim C7. In every state the server reaches, a \<open>sendMessage\<close> event from the socket of
  a registered connection \<open>A\<close> emits \<open>newMessage\<close> to each connected socket other than
  that of \<open>A\<close> and to nothing else: every other registered connection is sent the
  message, the socket of \<open>A\<close> is sent nothing, and the registry is unchanged.
\<close>

theorem broadcast_excludes_sender:
  assumes "s = run evs init_server" "map_of (connections s) A = Some ca"
  shows "emitted s (step (SendMessage (socket ca) m) s)
           = map (\<lambda>(k, u). (k, NewMessage m))
               (filter (\<lambda>(k, u). k \<noteq> socket ca) (io_sockets s)) \<and>
         (\<forall>B cb. map_of (connections s) B = Some cb \<and> B \<noteq> A \<longrightarrow>
            (socket cb, NewMessage m) \<in> set (emitted s (step (SendMessage (socket ca) m) s))) \<and>
         (\<forall>e. (socket ca, e) \<notin> set (emitted s (step (SendMessage (socket ca) m) s))) \<and>
         connections (step (SendMessage (socket ca) m) s) = connections s \<and>
         io_sockets (step (SendMessage (socket ca) m) s) = io_sockets s"
proof -
  have wf: "wf_server s" using assms(1) by (simp add: wf_reachable)
  have bound: "map_of (io_sockets s) (socket c) = Some u"
    if "map_of (connections s) u = Some c" for u c
    using wf that unfolding wf_server_def by (auto dest: list_all_entry)
  have sender: "map_of (io_sockets s) (socket ca) = Some A"
    using bound assms(2) by simp
  have st: "step (SendMessage (socket ca) m) s = broadcast_emit (socket ca) (NewMessage m) s"
    using sender by (simp add: on_socket_def on_sendMessage_def)
  have out: "emitted s (step (SendMessage (socket ca) m) s)
           = map (\<lambda>(k, u). (k, NewMessage m))
               (filter (\<lambda>(k, u). k \<noteq> socket ca) (io_sockets s))"
    unfolding st by (simp add: broadcast_emit_def emitted_def)
  have others: "(socket cb, NewMessage m) \<in> set (emitted s (step (SendMessage (socket ca) m) s))"
    if "map_of (connections s) B = Some cb" "B \<noteq> A" for B cb
  proof -
    from bound [OF that(1)] have b: "map_of (io_sockets s) (socket cb) = Some B" .
    then have "(socket cb, B) \<in> set (io_sockets s)" by (rule map_of_SomeD)
    moreover from b sender that(2) have "socket cb \<noteq> socket ca" by auto
    ultimately show ?thesis unfolding out by force
  qed
  have self: "(socket ca, e) \<notin> set (emitted s (step (SendMessage (socket ca) m) s))" for e
    unfolding out by auto
  have "connections (step (SendMessage (socket ca) m) s) = connections s"
    and "io_sockets (step (SendMessage (socket ca) m) s) = io_sockets s"
    unfolding st by (simp_all add: broadcast_emit_def)
  with out others self show ?thesis by blast
qed

theorem broadcast_excludes_sender_witness:
  "two_calls =
     run [Connection 10 1 5, Connection 20 2 6, Connection 30 3 7,
          CallUser 10 (obj [(''userToCall'', JNum 2), (''from'', JNum 1),
                            (''signalData'', JStr ''sdp1''), (''callType'', JStr ''video'')])
            1000 1001,
          CallUser 10 (obj [(''userToCall'', JNum 3), (''from'', JNum 1),
                            (''signalData'', JStr ''sdp3''), (''callType'', JStr ''audio'')])
            1002 1003]
       init_server \<and>
   map_of (connections two_calls) 2 = Some \<lparr>socket = 20, timestamp = 6, calls = []\<rparr> \<and>
   emitted two_calls (step (SendMessage 20 (JStr ''hello'')) two_calls)
     = [(10, NewMessage (JStr ''hello'')), (30, NewMessage (JStr ''hello''))]"
  using broadcast_excludes_sender
    [OF two_calls_def, of 2 "\<lparr>socket = 20, timestamp = 6, calls = []\<rparr>" "JStr ''hello''"]
  by (simp add: two_calls_def [symmetric]) (simp add: two_calls_eq)

section \<open>Signaling relays\<close>

text \<open>
  Claim C8. An answer or ICE-candidate event whose target (a value the log line can
  print, as every principal id is) is not in the registry is dropped in both services:
  the handler returns the state it was given, so nothing is emitted to anyone (the
  sender included) and neither the registry nor any call changes.
\<close>

theorem unregistered_target_signal_dropped:
  "(get s (d ''to'') = None \<longrightarrow>
      on_answerCall sk uid d s = s \<and> on_callCandidate sk uid d s = s) \<and>
   (users_get us (d ''targetUserId'') = None \<and> \<not> js_throws (d ''targetUserId'') \<longrightarrow>
      users_on_answerCall sk uid d us = Inr us \<and> users_on_iceCandidate sk uid d us = Inr us)"
  by (simp add: on_answerCall_def on_callCandidate_def users_on_answerCall_def
      users_on_iceCandidate_def rendering_def)

theorem unregistered_target_signal_dropped_witness:
  "get two_users (obj [(''to'', JNum 7), (''targetUserId'', JNum 7)] ''to'') = None \<and>
   on_answerCall 10 1 (obj [(''to'', JNum 7), (''targetUserId'', JNum 7)]) two_users
     = two_users \<and>
   on_callCandidate 10 1 (obj [(''to'', JNum 7), (''targetUserId'', JNum 7)]) two_users
     = two_users \<and>
   users_get users_alone (obj [(''to'', JNum 7), (''targetUserId'', JNum 7)] ''targetUserId'')
     = None \<and>
   js_throws (obj [(''to'', JNum 7), (''targetUserId'', JNum 7)] ''targetUserId'') = False \<and>
   users_on_answerCall 10 1 (obj [(''to'', JNum 7), (''targetUserId'', JNum 7)]) users_alone
     = Inr users_alone \<and>
   users_on_iceCandidate 10 1 (obj [(''to'', JNum 7), (''targetUserId'', JNum 7)]) users_alone
     = Inr users_alone"
  using unregistered_target_signal_dropped
    [of two_users "obj [(''to'', JNum 7), (''targetUserId'', JNum 7)]" 10 1 users_alone]
  by (simp add: two_users_eq users_alone_eq get_def users_get_def obj_def)

text \<open>
  Claim C9. Every event emitted by the answer relay, by the ICE-candidate relay and by
  the fallback branch of \<open>endCall\<close> (no call id in the payload) carries the sending
  socket's \<open>socket.user.id\<close> as \<open>from\<close>; and two payloads that agree on the target \<open>to\<close>,
  whatever else they hold, make each relay emit the same \<open>from\<close> values.
\<close>

theorem relay_from_is_sender:
  "(\<forall>e \<in> set (emitted s (on_answerCall sk uid d s)). from_field (snd e) = Some (JNum uid)) \<and>
   (\<forall>e \<in> set (emitted s (on_callCandidate sk uid d s)). from_field (snd e) = Some (JNum uid)) \<and>
   (\<not> js_truthy (d ''callId'') \<longrightarrow>
      (\<forall>e \<in> set (emitted s (on_endCall sk uid d s)). from_field (snd e) = Some (JNum uid))) \<and>
   (d' ''to'' = d ''to'' \<longrightarrow>
      map (\<lambda>e. from_field (snd e)) (emitted s (on_answerCall sk uid d' s))
        = map (\<lambda>e. from_field (snd e)) (emitted s (on_answerCall sk uid d s)) \<and>
      map (\<lambda>e. from_field (snd e)) (emitted s (on_callCandidate sk uid d' s))
        = map (\<lambda>e. from_field (snd e)) (emitted s (on_callCandidate sk uid d s)) \<and>
      (\<not> js_truthy (d ''callId'') \<and> \<not> js_truthy (d' ''callId'') \<longrightarrow>
         map (\<lambda>e. from_field (snd e)) (emitted s (on_endCall sk uid d' s))
           = map (\<lambda>e. from_field (snd e)) (emitted s (on_endCall sk uid d s))))"
  by (auto simp: on_answerCall_def on_callCandidate_def on_endCall_def split: option.splits)

theorem relay_from_is_sender_witness:
  "emitted two_users (on_answerCall 20 2 (obj [(''to'', JNum 1), (''from'', JNum 99)]) two_users)
     = [(10, CallAnswered JUndefined (JNum 2))] \<and>
   emitted two_users (on_answerCall 20 2 (obj [(''to'', JNum 1), (''from'', JNum 2)]) two_users)
     = [(10, CallAnswered JUndefined (JNum 2))] \<and>
   emitted two_users
       (on_callCandidate 20 2 (obj [(''to'', JNum 1), (''from'', JNum 99)]) two_users)
     = [(10, CallCandidate JUndefined (JNum 2))] \<and>
   js_truthy (obj [(''to'', JNum 1), (''from'', JNum 99)] ''callId'') = False \<and>
   js_truthy (obj [(''to'', JNum 1), (''from'', JNum 2)] ''callId'') = False \<and>
   obj [(''to'', JNum 1), (''from'', JNum 2)] ''to''
     = obj [(''to'', JNum 1), (''from'', JNum 99)] ''to'' \<and>
   emitted two_users (on_endCall 20 2 (obj [(''to'', JNum 1), (''from'', JNum 99)]) two_users)
     = [(10, CallEnded (JNum 2) (JStr ''NORMAL''))] \<and>
   from_field (CallEnded (JNum 2) (JStr ''NORMAL'')) = Some (JNum 2)"
  using relay_from_is_sender
    [of two_users 20 2 "obj [(''to'', JNum 1), (''from'', JNum 99)]"
        "obj [(''to'', JNum 1), (''from'', JNum 2)]"]
  by (simp add: two_users_eq on_answerCall_def on_callCandidate_def on_endCall_def get_def
      obj_def js_or_def)

end
